theory Spec2Isabelle
  imports Main "HOL-Library.Char_ord" "HOL-Library.List_Lexorder"
begin

section \<open>Strings\<close>

text \<open>
  Python strings are modelled as \<open>string\<close> (byte lists, UTF-8). The three characters
  the generator treats specially are single bytes that never occur inside a multi-byte
  UTF-8 sequence, so replacing them bytewise is what \<^verbatim>\<open>str.replace\<close> does.
\<close>

definition dq :: char where
  "dq = CHR 0x22"

definition bs :: char where
  "bs = CHR 0x5C"

definition nl :: char where
  "nl = CHR 0x0A"

text \<open>\<^verbatim>\<open>s.replace(c, r)\<close> for a one-character pattern \<open>c\<close>.\<close>

definition replace_char :: "char \<Rightarrow> string \<Rightarrow> string \<Rightarrow> string" where
  "replace_char c r s = concat (map (\<lambda>x. if x = c then r else [x]) s)"

text \<open>\<^verbatim>\<open>sep.join(parts)\<close>.\<close>

fun join_str :: "string \<Rightarrow> string list \<Rightarrow> string" where
  "join_str sep [] = []"
| "join_str sep [x] = x"
| "join_str sep (x # y # ys) = x @ sep @ join_str sep (y # ys)"

text \<open>\<^verbatim>\<open>s.rstrip("\n")\<close>: every trailing newline is removed.\<close>

definition rstrip_nl :: "string \<Rightarrow> string" where
  "rstrip_nl s = rev (dropWhile (\<lambda>c. c = nl) (rev s))"

text \<open>\<^verbatim>\<open>s.endswith(suf)\<close>.\<close>

definition endswith :: "string \<Rightarrow> string \<Rightarrow> bool" where
  "endswith s suf = (length suf \<le> length s \<and> drop (length s - length suf) s = suf)"

text \<open>\<^verbatim>\<open>s.rfind(c)\<close>: the index of the last occurrence, \<open>-1\<close> when there is none.\<close>

definition rfind :: "char \<Rightarrow> string \<Rightarrow> int" where
  "rfind c s =
     (if c \<in> set s
      then int (length s) - 1 - int (length (takeWhile (\<lambda>x. x \<noteq> c) (rev s)))
      else - 1)"

text \<open>
  \<^verbatim>\<open>str.lower\<close> is Unicode-aware and belongs to Python, not to the repository: the
  definitions below that sort take it as their first parameter \<open>lower\<close>, and every
  general theorem holds for whatever function it is. \<open>ascii_lower\<close> is what
  \<^verbatim>\<open>str.lower\<close> does on a string of ASCII characters (the letters A to Z get bit 5
  set, every other character is kept); it stands for \<open>lower\<close> only where a concrete
  tree with ASCII names is evaluated.
\<close>

definition ascii_lower_char :: "char \<Rightarrow> char" where
  "ascii_lower_char c =
     (if CHR ''A'' \<le> c \<and> c \<le> CHR ''Z''
      then (case c of Char b0 b1 b2 b3 b4 b5 b6 b7 \<Rightarrow> Char b0 b1 b2 b3 b4 True b6 b7)
      else c)"

definition ascii_lower :: "string \<Rightarrow> string" where
  "ascii_lower s = map ascii_lower_char s"

section \<open>Paths\<close>

text \<open>
  An absolute POSIX path is the list of its components below \<open>/\<close>; a relative path
  (the result of \<^verbatim>\<open>relative_to\<close>) is a list of components too.
\<close>

type_synonym path = "string list"

definition as_posix :: "path \<Rightarrow> string" where
  "as_posix p = ''/'' @ join_str ''/'' p"

text \<open>The string form of a relative path; the empty relative path is \<open>.\<close>\<close>

definition rel_as_posix :: "string list \<Rightarrow> string" where
  "rel_as_posix r = (if r = [] then ''.'' else join_str ''/'' r)"

text \<open>\<^verbatim>\<open>p.parent\<close>; the root is its own parent.\<close>

definition parent :: "path \<Rightarrow> path" where
  "parent p = butlast p"

text \<open>\<^verbatim>\<open>p.name\<close>; empty for the root.\<close>

definition name_of :: "path \<Rightarrow> string" where
  "name_of p = (if p = [] then [] else last p)"

text \<open>\<^verbatim>\<open>p.stem\<close>: the name up to its last dot, when that dot is neither first nor last.\<close>

definition stem :: "path \<Rightarrow> string" where
  "stem p =
     (let n = name_of p; i = rfind (CHR ''.'') n
      in if 0 < i \<and> i < int (length n) - 1 then take (nat i) n else n)"

text \<open>\<^verbatim>\<open>p.relative_to(other)\<close>; \<open>None\<close> is the \<^verbatim>\<open>ValueError\<close>.\<close>

definition relative_to :: "path \<Rightarrow> path \<Rightarrow> string list option" where
  "relative_to p other =
     (if take (length other) p = other then Some (drop (length other) p) else None)"

text \<open>
  \<^verbatim>\<open>root / s\<close> for a string \<open>s\<close>: empty and \<open>.\<close> components are dropped, and an
  absolute \<open>s\<close> replaces \<open>root\<close>.
\<close>

fun split_on :: "char \<Rightarrow> string \<Rightarrow> string list" where
  "split_on c [] = [[]]"
| "split_on c (x # xs) =
     (if x = c then [] # split_on c xs
      else (case split_on c xs of [] \<Rightarrow> [[x]] | w # ws \<Rightarrow> (x # w) # ws))"

definition path_join :: "path \<Rightarrow> string \<Rightarrow> path" where
  "path_join root s =
     (let comps = filter (\<lambda>w. w \<noteq> [] \<and> w \<noteq> ''.'') (split_on (CHR ''/'') s)
      in if s \<noteq> [] \<and> hd s = CHR ''/'' then comps else root @ comps)"

section \<open>The filesystem snapshot\<close>

text \<open>
  A node is a file or a directory with its entries, in the order the operating system
  lists them.
\<close>

datatype fsnode = File | Dir "(string \<times> fsnode) list"

fun is_dir :: "fsnode \<Rightarrow> bool" where
  "is_dir File = False"
| "is_dir (Dir es) = True"

text \<open>
  \<^verbatim>\<open>d.rglob(pattern)\<close>, that is \<^verbatim>\<open>d.glob("**/" + pattern)\<close>: the directory \<open>d\<close> and
  every directory below it are visited in pre-order, and for each one its entries whose
  name matches are produced. A path is produced as an entry of a visited directory, so
  \<open>d\<close> itself is never produced. The matcher \<open>m\<close> is the pattern applied to a name.
  Python leaves the order of the results to the operating system; here it is the order
  of the listings. Symbolic links are not modelled.
\<close>

fun rglob :: "(string \<Rightarrow> bool) \<Rightarrow> path \<Rightarrow> fsnode \<Rightarrow> (path \<times> fsnode) list"
  and rglob_children ::
    "(string \<Rightarrow> bool) \<Rightarrow> path \<Rightarrow> (string \<times> fsnode) list \<Rightarrow> (path \<times> fsnode) list"
where
  "rglob m p File = []"
| "rglob m p (Dir es) =
     map (\<lambda>e. (p @ [fst e], snd e)) (filter (\<lambda>e. m (fst e)) es) @ rglob_children m p es"
| "rglob_children m p [] = []"
| "rglob_children m p (e # es) = rglob m (p @ [fst e]) (snd e) @ rglob_children m p es"

text \<open>The patterns \<^verbatim>\<open>*.kicad_sym\<close> and \<^verbatim>\<open>*.pretty\<close>.\<close>

definition is_kicad_sym :: "string \<Rightarrow> bool" where
  "is_kicad_sym n = endswith n ''.kicad_sym''"

definition is_pretty :: "string \<Rightarrow> bool" where
  "is_pretty n = endswith n ''.pretty''"

section \<open>Serialization\<close>

definition SYM_HEADER :: string where
  "SYM_HEADER = ''(sym_lib_table'' @ [nl] @ ''  (version 7)'' @ [nl]"

definition FP_HEADER :: string where
  "FP_HEADER = ''(fp_lib_table'' @ [nl] @ ''  (version 7)'' @ [nl]"

definition FOOTER :: string where
  "FOOTER = '')'' @ [nl]"

definition kicad_escape :: "string \<Rightarrow> string" where
  "kicad_escape s = replace_char dq [bs, dq] (replace_char bs [bs, bs] s)"

definition make_lib_line :: "string \<Rightarrow> string \<Rightarrow> string" where
  "make_lib_line name uri =
     ''  (lib (name '' @ [dq] @ kicad_escape name @ [dq] @ '')'' @
     ''(type '' @ [dq] @ ''KiCad'' @ [dq] @ '')'' @
     ''(uri '' @ [dq] @ kicad_escape uri @ [dq] @ '')'' @
     ''(options '' @ [dq] @ [dq] @ '')'' @
     ''(descr '' @ [dq] @ [dq] @ ''))''"

section \<open>Name assignment\<close>

text \<open>The suffix of a colliding entry: its parent, relative to the project root when it
  lies below it and absolute otherwise, with both separators replaced.\<close>

definition parent_rel :: "path \<Rightarrow> path \<Rightarrow> string" where
  "parent_rel project_root p =
     (case relative_to (parent p) project_root of
        Some r \<Rightarrow> rel_as_posix r
      | None \<Rightarrow> as_posix (parent p))"

definition name_suffix :: "path \<Rightarrow> path \<Rightarrow> string" where
  "name_suffix project_root p =
     replace_char bs ''_'' (replace_char (CHR ''/'') ''_'' (parent_rel project_root p))"

text \<open>The loop of \<^verbatim>\<open>make_unique_names\<close>, with its two dictionaries passed along.\<close>

fun make_unique_names_loop ::
  "(path \<Rightarrow> string) \<Rightarrow> path \<Rightarrow> path list \<Rightarrow> (string \<rightharpoonup> nat) \<Rightarrow> (path \<rightharpoonup> string) \<Rightarrow>
   (string \<rightharpoonup> nat) \<times> (path \<rightharpoonup> string)" where
  "make_unique_names_loop base_name_func project_root [] seen result = (seen, result)"
| "make_unique_names_loop base_name_func project_root (p # ps) seen result =
     (let base = base_name_func p in
      case seen base of
        None \<Rightarrow>
          make_unique_names_loop base_name_func project_root ps
            (seen(base \<mapsto> 1)) (result(p \<mapsto> base))
      | Some n \<Rightarrow>
          make_unique_names_loop base_name_func project_root ps
            (seen(base \<mapsto> n + 1))
            (result(p \<mapsto> base @ ''_'' @ name_suffix project_root p)))"

definition make_unique_names ::
  "path list \<Rightarrow> (path \<Rightarrow> string) \<Rightarrow> path \<Rightarrow> (path \<rightharpoonup> string)" where
  "make_unique_names paths base_name_func project_root =
     snd (make_unique_names_loop base_name_func project_root paths Map.empty Map.empty)"

text \<open>The registry \<^verbatim>\<open>seen\<close> as the loop leaves it.\<close>

definition seen_counts ::
  "path list \<Rightarrow> (path \<Rightarrow> string) \<Rightarrow> path \<Rightarrow> (string \<rightharpoonup> nat)" where
  "seen_counts paths base_name_func project_root =
     fst (make_unique_names_loop base_name_func project_root paths Map.empty Map.empty)"

section \<open>Document generation\<close>

datatype error =
  FileNotFoundError string
| ValueError path path
| KeyError path

text \<open>The base name of a footprint library: the directory name without \<open>.pretty\<close>.\<close>

definition pretty_base :: "path \<Rightarrow> string" where
  "pretty_base p =
     (let n = name_of p
      in if endswith n ''.pretty'' then take (length n - length ''.pretty'') n else n)"

text \<open>\<^verbatim>\<open>sorted(ps, key=lambda p: p.as_posix().lower())\<close>: a stable sort on the key.
  Python compares the keys code point by code point; on UTF-8 byte strings that is the
  lexicographic order of the bytes, the order of \<open>string\<close> here.\<close>

definition sort_paths :: "(string \<Rightarrow> string) \<Rightarrow> path list \<Rightarrow> path list" where
  "sort_paths lower ps = sort_key (\<lambda>p. lower (as_posix p)) ps"

definition KIPRJMOD :: string where
  "KIPRJMOD = ''${KIPRJMOD}/''"

text \<open>The loop that appends one library line per entry; a missing key of the name map
  and a path outside the project root are the exceptions Python raises there.\<close>

fun lib_lines :: "(path \<rightharpoonup> string) \<Rightarrow> path \<Rightarrow> path list \<Rightarrow> error + string list" where
  "lib_lines name_map project_root [] = Inr []"
| "lib_lines name_map project_root (p # ps) =
     (case name_map p of
        None \<Rightarrow> Inl (KeyError p)
      | Some name \<Rightarrow>
          (case relative_to p project_root of
             None \<Rightarrow> Inl (ValueError p project_root)
           | Some rel_path \<Rightarrow>
               (case lib_lines name_map project_root ps of
                  Inl e \<Rightarrow> Inl e
                | Inr ls \<Rightarrow> Inr (make_lib_line name (KIPRJMOD @ rel_as_posix rel_path) # ls))))"

definition document :: "string list \<Rightarrow> string" where
  "document lines = join_str [nl] lines @ [nl]"

text \<open>After \<open>lower\<close> and the project root, the generators take the path of the scan
  directory and what the filesystem has there (\<open>None\<close>: nothing exists at that path).\<close>

definition sym_files :: "(string \<Rightarrow> string) \<Rightarrow> path \<Rightarrow> fsnode \<Rightarrow> path list" where
  "sym_files lower symbols_dir tree =
     sort_paths lower (map fst (rglob is_kicad_sym symbols_dir tree))"

definition generate_sym_lib_table ::
  "(string \<Rightarrow> string) \<Rightarrow> path \<Rightarrow> path \<Rightarrow> fsnode option \<Rightarrow> error + string" where
  "generate_sym_lib_table lower project_root symbols_dir fs =
     (case fs of
        None \<Rightarrow> Inl (FileNotFoundError (''Symbols directory not found: '' @ as_posix symbols_dir))
      | Some tree \<Rightarrow>
          (let files = sym_files lower symbols_dir tree;
               name_map = make_unique_names files stem project_root
           in case lib_lines name_map project_root files of
                Inl e \<Rightarrow> Inl e
              | Inr ls \<Rightarrow> Inr (document ([rstrip_nl SYM_HEADER] @ ls @ [rstrip_nl FOOTER]))))"

definition pretty_dirs :: "(string \<Rightarrow> string) \<Rightarrow> path \<Rightarrow> fsnode \<Rightarrow> path list" where
  "pretty_dirs lower footprints_dir tree =
     sort_paths lower
       (map fst (filter (\<lambda>e. is_dir (snd e)) (rglob is_pretty footprints_dir tree)))"

definition generate_fp_lib_table ::
  "(string \<Rightarrow> string) \<Rightarrow> path \<Rightarrow> path \<Rightarrow> fsnode option \<Rightarrow> error + string" where
  "generate_fp_lib_table lower project_root footprints_dir fs =
     (case fs of
        None \<Rightarrow>
          Inl (FileNotFoundError (''Footprints directory not found: '' @ as_posix footprints_dir))
      | Some tree \<Rightarrow>
          (let dirs = pretty_dirs lower footprints_dir tree;
               name_map = make_unique_names dirs pretty_base project_root
           in case relative_to footprints_dir project_root of
                None \<Rightarrow> Inl (ValueError footprints_dir project_root)
              | Some base_rel \<Rightarrow>
                  (case lib_lines name_map project_root dirs of
                     Inl e \<Rightarrow> Inl e
                   | Inr ls \<Rightarrow>
                       Inr (document
                         ([rstrip_nl FP_HEADER] @
                          [make_lib_line ''footprints'' (KIPRJMOD @ rel_as_posix base_rel)] @
                          ls @ [rstrip_nl FOOTER])))))"

section \<open>The driver\<close>

record args =
  sym_out :: string
  fp_out :: string
  dry_run :: bool

text \<open>What a run leaves behind: its exit status, what it printed on each stream (one
  element per \<^verbatim>\<open>print\<close>) and the files it wrote, in order.\<close>

record outcome =
  exit_status :: int
  stderr :: "string list"
  stdout :: "string list"
  written :: "(path \<times> string) list"

text \<open>\<^verbatim>\<open>str(e)\<close> of a caught exception.\<close>

fun error_text :: "error \<Rightarrow> string" where
  "error_text (FileNotFoundError msg) = msg"
| "error_text (ValueError p other) =
     [CHR 0x27] @ as_posix p @ [CHR 0x27] @ '' is not in the subpath of '' @
     [CHR 0x27] @ as_posix other @ [CHR 0x27]"
| "error_text (KeyError p) = ''PosixPath('' @ [CHR 0x27] @ as_posix p @ [CHR 0x27] @ '')''"

definition check_mark :: string where
  "check_mark = [CHR 0xE2, CHR 0x9C, CHR 0x94]"

text \<open>\<open>script_path\<close> is the resolved location of the script and \<open>fs\<close> the filesystem:
  what exists at each absolute path. The two \<^verbatim>\<open>write_text\<close> calls are taken to
  succeed.\<close>

definition main ::
  "(string \<Rightarrow> string) \<Rightarrow> args \<Rightarrow> path \<Rightarrow> (path \<Rightarrow> fsnode option) \<Rightarrow> outcome" where
  "main lower a script_path fs =
     (let submodule_dir = parent script_path;
          project_root = parent submodule_dir;
          symbols_dir = submodule_dir @ [''symbols''];
          footprints_dir = submodule_dir @ [''footprints'']
      in case generate_sym_lib_table lower project_root symbols_dir (fs symbols_dir) of
           Inl e \<Rightarrow>
             \<lparr>exit_status = 1, stderr = [''Error: '' @ error_text e], stdout = [], written = []\<rparr>
         | Inr sym_content \<Rightarrow>
             (case generate_fp_lib_table lower project_root footprints_dir
                     (fs footprints_dir) of
                Inl e \<Rightarrow>
                  \<lparr>exit_status = 1, stderr = [''Error: '' @ error_text e], stdout = [],
                   written = []\<rparr>
              | Inr fp_content \<Rightarrow>
                  (let sym_out_path = path_join project_root (sym_out a);
                       fp_out_path = path_join project_root (fp_out a)
                   in if dry_run a
                      then \<lparr>exit_status = 0,
                            stderr = [''[dry-run] would write: '' @ as_posix sym_out_path,
                                      sym_content,
                                      ''[dry-run] would write: '' @ as_posix fp_out_path,
                                      fp_content],
                            stdout = [], written = []\<rparr>
                      else \<lparr>exit_status = 0, stderr = [],
                            stdout = [check_mark @ '' Generated '' @ as_posix sym_out_path,
                                      check_mark @ '' Generated '' @ as_posix fp_out_path],
                            written = [(sym_out_path, sym_content),
                                       (fp_out_path, fp_content)]\<rparr>)))"

section \<open>Reading a rendered line back\<close>

text \<open>
  The reader of a rendered library line, in the spec's words ("splitting on unescaped
  quotes", then unescaping); the repository has no reader of its own, this one is what
  the escaping is compared with. \<open>unescape\<close> drops a backslash and keeps the character
  after it, \<open>split_quotes\<close> cuts at the quotes that no backslash escapes (the pieces at
  odd positions are the quoted fields), \<open>parse_line\<close> returns the fields.
\<close>

fun unescape :: "string \<Rightarrow> string" where
  "unescape [] = []"
| "unescape [c] = (if c = bs then [] else [c])"
| "unescape (c # d # cs) = (if c = bs then d # unescape cs else c # unescape (d # cs))"

fun prepend :: "string \<Rightarrow> string list \<Rightarrow> string list" where
  "prepend w [] = [w]"
| "prepend w (x # xs) = (w @ x) # xs"

fun split_quotes :: "string \<Rightarrow> string list" where
  "split_quotes [] = [[]]"
| "split_quotes [c] = (if c = dq then [[], []] else [[c]])"
| "split_quotes (c # d # cs) =
     (if c = bs then prepend [c, d] (split_quotes cs)
      else if c = dq then [] # split_quotes (d # cs)
      else prepend [c] (split_quotes (d # cs)))"

fun odd_elems :: "'a list \<Rightarrow> 'a list" where
  "odd_elems [] = []"
| "odd_elems [x] = []"
| "odd_elems (x # y # zs) = y # odd_elems zs"

definition parse_line :: "string \<Rightarrow> string list" where
  "parse_line l = map unescape (odd_elems (split_quotes l))"

text \<open>What \<open>kicad_escape\<close> makes of one character.\<close>

definition escape_char :: "char \<Rightarrow> string" where
  "escape_char c = (if c = bs then [bs, bs] else if c = dq then [bs, dq] else [c])"

section \<open>Nodes of a tree\<close>

text \<open>\<open>has_node t q x\<close>: following the names \<open>q\<close> down from \<open>t\<close> leads to the node \<open>x\<close>.\<close>

inductive has_node :: "fsnode \<Rightarrow> string list \<Rightarrow> fsnode \<Rightarrow> bool" where
  here: "has_node t [] t"
| below: "(n, c) \<in> set es \<Longrightarrow> has_node c q x \<Longrightarrow> has_node (Dir es) (n # q) x"

code_pred has_node .

section \<open>Escaping is invertible\<close>

lemma bs_neq_dq: "bs \<noteq> dq"
  by (simp add: bs_def dq_def)

lemma kicad_escape_chars: "kicad_escape s = concat (map escape_char s)"
  by (induction s) (simp_all add: kicad_escape_def replace_char_def escape_char_def bs_neq_dq)

lemma unescape_plain: "c \<noteq> bs \<Longrightarrow> unescape (c # cs) = c # unescape cs"
  by (cases cs) simp_all

lemma unescape_escaped: "unescape (bs # d # cs) = d # unescape cs"
  by simp

lemma unescape_escape_char: "unescape (escape_char c @ rest) = c # unescape rest"
  by (simp add: escape_char_def unescape_plain del: unescape.simps(3)) (simp add: bs_neq_dq)

lemma unescape_escape_chars: "unescape (concat (map escape_char s)) = s"
  by (induction s) (simp_all add: unescape_escape_char)

lemma split_quotes_dq: "split_quotes (dq # cs) = [] # split_quotes cs"
  by (cases cs) (simp_all add: bs_neq_dq[symmetric])

lemma split_quotes_plain:
  "c \<noteq> bs \<Longrightarrow> c \<noteq> dq \<Longrightarrow> split_quotes (c # cs) = prepend [c] (split_quotes cs)"
  by (cases cs) simp_all

lemma split_quotes_escaped: "split_quotes (bs # d # cs) = prepend [bs, d] (split_quotes cs)"
  by simp

lemma split_quotes_nonempty: "split_quotes s \<noteq> []"
  by (induction s rule: split_quotes.induct) (auto split: list.splits elim: prepend.elims)

lemma prepend_Nil: "xs \<noteq> [] \<Longrightarrow> prepend [] xs = xs"
  by (cases xs) simp_all

lemma split_quotes_escape_char:
  "split_quotes (escape_char c @ rest) = prepend (escape_char c) (split_quotes rest)"
  by (simp add: escape_char_def split_quotes_plain del: split_quotes.simps(3)) (simp add: bs_neq_dq)

lemma prepend_prepend: "prepend u (prepend v xs) = prepend (u @ v) xs"
  by (cases xs) simp_all

lemma split_quotes_escape_chars:
  "split_quotes (concat (map escape_char s) @ rest) =
   prepend (concat (map escape_char s)) (split_quotes rest)"
proof (induction s)
  case Nil
  show ?case by (simp add: prepend_Nil split_quotes_nonempty)
next
  case (Cons c s)
  then show ?case
    by (simp add: split_quotes_escape_char prepend_prepend)
qed

lemma split_quotes_text:
  "\<forall>c \<in> set w. c \<noteq> bs \<and> c \<noteq> dq \<Longrightarrow>
   split_quotes (w @ rest) = prepend w (split_quotes rest)"
proof (induction w)
  case Nil
  show ?case by (simp add: prepend_Nil split_quotes_nonempty)
next
  case (Cons c w)
  then show ?case
    by (simp add: split_quotes_plain prepend_prepend del: split_quotes.simps(3))
qed

lemma split_quotes_field:
  "split_quotes (kicad_escape s @ dq # rest) = kicad_escape s # split_quotes rest"
  by (simp add: kicad_escape_chars split_quotes_escape_chars split_quotes_dq)

lemma split_quotes_lit:
  "\<forall>c \<in> set w. c \<noteq> bs \<and> c \<noteq> dq \<Longrightarrow>
   split_quotes (w @ dq # rest) = w # split_quotes rest"
  by (simp add: split_quotes_text split_quotes_dq)

lemma split_quotes_last:
  "\<forall>c \<in> set w. c \<noteq> bs \<and> c \<noteq> dq \<Longrightarrow> split_quotes w = [w]"
  using split_quotes_text [of w "[]"] by simp

lemma split_make_lib_line:
  "split_quotes (make_lib_line name uri) =
   [''  (lib (name '', kicad_escape name, '')(type '', ''KiCad'', '')(uri '',
    kicad_escape uri, '')(options '', [], '')(descr '', [], ''))'']"
proof -
  have p1: "\<forall>c \<in> set ''  (lib (name ''. c \<noteq> bs \<and> c \<noteq> dq"
    and p2: "\<forall>c \<in> set '')(type ''. c \<noteq> bs \<and> c \<noteq> dq"
    and p3: "\<forall>c \<in> set ''KiCad''. c \<noteq> bs \<and> c \<noteq> dq"
    and p4: "\<forall>c \<in> set '')(uri ''. c \<noteq> bs \<and> c \<noteq> dq"
    and p5: "\<forall>c \<in> set '')(options ''. c \<noteq> bs \<and> c \<noteq> dq"
    and p6: "\<forall>c \<in> set ([]::string). c \<noteq> bs \<and> c \<noteq> dq"
    and p7: "\<forall>c \<in> set '')(descr ''. c \<noteq> bs \<and> c \<noteq> dq"
    and p8: "\<forall>c \<in> set ''))''. c \<noteq> bs \<and> c \<noteq> dq"
    by (simp_all add: bs_def dq_def)
  have "make_lib_line name uri =
    ''  (lib (name '' @ dq # kicad_escape name @ dq # '')(type '' @ dq # ''KiCad'' @ dq #
    '')(uri '' @ dq # kicad_escape uri @ dq # '')(options '' @ dq # [] @ dq #
    '')(descr '' @ dq # [] @ dq # ''))''"
    by (simp add: make_lib_line_def)
  then show ?thesis
    apply (rule ssubst)
    apply (subst split_quotes_lit [OF p1])
    apply (subst split_quotes_field)
    apply (subst split_quotes_lit [OF p2])
    apply (subst split_quotes_lit [OF p3])
    apply (subst split_quotes_lit [OF p4])
    apply (subst split_quotes_field)
    apply (subst split_quotes_lit [OF p5])
    apply (subst split_quotes_lit [OF p6])
    apply (subst split_quotes_lit [OF p7])
    apply (subst split_quotes_lit [OF p6])
    apply (subst split_quotes_last [OF p8])
    apply (rule refl)
    done
qed

lemma unescape_text: "\<forall>c \<in> set w. c \<noteq> bs \<Longrightarrow> unescape w = w"
  by (induction w) (simp_all add: unescape_plain del: unescape.simps(3))

text \<open>
  Claim C3. \<open>kicad_escape\<close> replaces backslashes first and quotes second, which
  turns each backslash into two backslashes, each quote into backslash-quote and keeps
  every other character; unescaping undoes it; and reading a rendered library line back
  (splitting on unescaped quotes, then unescaping) gives the name, the type, the URI and
  the two empty fields exactly.
\<close>

theorem kicad_escape_roundtrip:
  "kicad_escape s = concat (map (\<lambda>c. if c = bs then [bs, bs] else if c = dq then [bs, dq] else [c]) s)
   \<and> unescape (kicad_escape s) = s
   \<and> parse_line (make_lib_line name uri) = [name, ''KiCad'', uri, [], []]"
proof -
  have k: "unescape ''KiCad'' = ''KiCad''"
    by (rule unescape_text) (simp add: bs_def)
  have fields: "odd_elems (split_quotes (make_lib_line name uri)) =
      [kicad_escape name, ''KiCad'', kicad_escape uri, [], []]"
    by (simp only: split_make_lib_line odd_elems.simps)
  have esc: "unescape (kicad_escape t) = t" for t
    by (simp only: kicad_escape_chars unescape_escape_chars)
  have 1: "kicad_escape s =
      concat (map (\<lambda>c. if c = bs then [bs, bs] else if c = dq then [bs, dq] else [c]) s)"
    unfolding kicad_escape_chars
    by (rule arg_cong [where f = concat], rule map_cong) (simp_all add: escape_char_def)
  have 3: "parse_line (make_lib_line name uri) = [name, ''KiCad'', uri, [], []]"
    by (simp only: parse_line_def fields list.map esc k unescape.simps(1))
  from 1 esc [of s] 3 show ?thesis
    by (intro conjI)
qed

section \<open>The naming loop\<close>

lemma loop_snoc:
  "make_unique_names_loop f root (ps @ [p]) seen result =
   make_unique_names_loop f root [p]
     (fst (make_unique_names_loop f root ps seen result))
     (snd (make_unique_names_loop f root ps seen result))"
  by (induction ps arbitrary: seen result) (simp_all add: Let_def split: option.splits)

lemma seen_counts_snoc:
  "seen_counts (ps @ [p]) f root =
   (seen_counts ps f root)(f p \<mapsto> (case seen_counts ps f root (f p) of None \<Rightarrow> 1 | Some n \<Rightarrow> n + 1))"
  unfolding seen_counts_def loop_snoc [of f root ps p]
  by (simp add: Let_def split: option.splits)

lemma make_unique_names_snoc:
  "make_unique_names (ps @ [p]) f root =
   (make_unique_names ps f root)
     (p \<mapsto> (case seen_counts ps f root (f p) of
              None \<Rightarrow> f p
            | Some n \<Rightarrow> f p @ ''_'' @ name_suffix root p))"
  unfolding make_unique_names_def seen_counts_def loop_snoc [of f root ps p]
  by (simp add: Let_def split: option.splits)

lemma seen_counts_count:
  "seen_counts ps f root b =
   (if b \<in> f ` set ps then Some (length (filter (\<lambda>p. f p = b) ps)) else None)"
proof (induction ps arbitrary: b rule: rev_induct)
  case Nil
  show ?case by (simp add: seen_counts_def)
next
  case (snoc p ps)
  show ?case
    unfolding seen_counts_snoc using snoc [of b] snoc [of "f p"]
    by (auto split: option.splits simp: filter_empty_conv image_iff)
qed

lemma dom_make_unique_names: "dom (make_unique_names ps f root) = set ps"
proof (induction ps rule: rev_induct)
  case Nil
  show ?case by (simp add: make_unique_names_def)
next
  case (snoc p ps)
  have "dom (make_unique_names (ps @ [p]) f root) = insert p (dom (make_unique_names ps f root))"
    unfolding make_unique_names_snoc by simp
  with snoc show ?case by simp
qed

lemma replace_separators:
  "replace_char bs ''_'' (replace_char (CHR ''/'') ''_'' s) =
   map (\<lambda>c. if c = CHR ''/'' \<or> c = bs then CHR ''_'' else c) s"
  by (induction s) (simp_all add: replace_char_def bs_def)

lemma name_suffix_chars:
  "name_suffix root p =
   map (\<lambda>c. if c = CHR ''/'' \<or> c = bs then CHR ''_'' else c) (parent_rel root p)"
  unfolding name_suffix_def by (rule replace_separators)

lemma make_unique_names_nth:
  assumes "distinct ps" and "i < length ps"
  shows "make_unique_names ps f root (ps ! i) =
    Some (if f (ps ! i) \<in> f ` set (take i ps)
          then f (ps ! i) @ ''_'' @ name_suffix root (ps ! i)
          else f (ps ! i))"
  using assms
proof (induction ps rule: rev_induct)
  case Nil
  then show ?case by simp
next
  case (snoc p ps)
  show ?case
  proof (cases "i < length ps")
    case True
    with snoc.prems have "ps ! i \<noteq> p" by (auto simp: in_set_conv_nth)
    with True snoc show ?thesis
      unfolding make_unique_names_snoc by (simp add: nth_append)
  next
    case False
    with snoc.prems have "i = length ps" by simp
    then show ?thesis
      unfolding make_unique_names_snoc
      by (simp add: seen_counts_count)
  qed
qed

section \<open>What discovery finds\<close>

inductive_simps has_node_Cons: "has_node t (n # q) x"

inductive_simps has_node_Nil: "has_node t [] x"

lemma has_node_File: "has_node File q x \<Longrightarrow> q = []"
  by (erule has_node.cases) simp_all

lemma rglob_iff_aux:
  "((x, nd) \<in> set (rglob m p t) \<longleftrightarrow>
      (\<exists>q. q \<noteq> [] \<and> x = p @ q \<and> has_node t q nd \<and> m (last q)))"
  "((x, nd) \<in> set (rglob_children m p es) \<longleftrightarrow>
      (\<exists>n c q. (n, c) \<in> set es \<and> q \<noteq> [] \<and> x = p @ n # q \<and> has_node c q nd \<and> m (last q)))"
proof (induction m p t and m p es arbitrary: x nd and x nd rule: rglob_rglob_children.induct)
  case (1 m p)
  show ?case by (auto dest: has_node_File)
next
  case (2 m p es)
  show ?case (is "?L = ?R")
  proof
    assume ?L
    then consider (a) "(x, nd) \<in> set (map (\<lambda>e. (p @ [fst e], snd e)) (filter (\<lambda>e. m (fst e)) es))"
      | (b) "(x, nd) \<in> set (rglob_children m p es)" by auto
    then show ?R
    proof cases
      case a
      then obtain n where n: "(n, nd) \<in> set es" "m n" "x = p @ [n]" by auto
      then have "has_node (Dir es) [n] nd" by (auto intro: has_node.intros)
      with n show ?thesis by (intro exI [of _ "[n]"]) simp
    next
      case b
      then obtain n c q where q: "(n, c) \<in> set es" "q \<noteq> []" "x = p @ n # q"
        "has_node c q nd" "m (last q)" using 2 by blast
      then have "has_node (Dir es) (n # q) nd" by (auto intro: has_node.intros)
      with q show ?thesis by (intro exI [of _ "n # q"]) simp
    qed
  next
    assume ?R
    then obtain q where q: "q \<noteq> []" "x = p @ q" "has_node (Dir es) q nd" "m (last q)" by blast
    then obtain n q' where nq: "q = n # q'" by (cases q) auto
    with q obtain c where c: "(n, c) \<in> set es" "has_node c q' nd"
      by (auto simp: has_node_Cons)
    show ?L
    proof (cases "q' = []")
      case True
      with c have "c = nd" by (simp add: has_node_Nil)
      with c q nq True have "(x, nd) \<in> set (map (\<lambda>e. (p @ [fst e], snd e)) (filter (\<lambda>e. m (fst e)) es))"
        by force
      then show ?thesis by simp
    next
      case False
      with c q nq have "(x, nd) \<in> set (rglob_children m p es)"
        unfolding 2 by (intro exI [of _ n] exI [of _ c] exI [of _ q']) simp
      then show ?thesis by simp
    qed
  qed
next
  case (3 m p)
  show ?case by simp
next
  case (4 m p e es)
  show ?case (is "?L = ?R")
  proof
    assume ?L
    then consider (a) "(x, nd) \<in> set (rglob m (p @ [fst e]) (snd e))"
      | (b) "(x, nd) \<in> set (rglob_children m p es)" by auto
    then show ?R
    proof cases
      case a
      then obtain q where "q \<noteq> []" "x = (p @ [fst e]) @ q" "has_node (snd e) q nd" "m (last q)"
        using 4(1) by blast
      then show ?thesis
        by (intro exI [of _ "fst e"] exI [of _ "snd e"] exI [of _ q]) simp
    next
      case b
      then show ?thesis using 4(2) by auto
    qed
  next
    assume ?R
    then obtain n c q where q: "(n, c) \<in> set (e # es)" "q \<noteq> []" "x = p @ n # q"
      "has_node c q nd" "m (last q)" by blast
    show ?L
    proof (cases "(n, c) = e")
      case True
      with q have "(x, nd) \<in> set (rglob m (p @ [fst e]) (snd e))"
        unfolding 4(1) by (intro exI [of _ q]) auto
      then show ?thesis by simp
    next
      case False
      with q have "(x, nd) \<in> set (rglob_children m p es)"
        unfolding 4(2) by (intro exI [of _ n] exI [of _ c] exI [of _ q]) auto
      then show ?thesis by simp
    qed
  qed
qed

lemma rglob_prefix: "(x, nd) \<in> set (rglob m d t) \<Longrightarrow> \<exists>q. q \<noteq> [] \<and> x = d @ q"
  by (auto simp: rglob_iff_aux(1))

section \<open>Names assigned by the loop\<close>

lemma parent_rel_explicit:
  "parent_rel root p =
   (if take (length root) (butlast p) = root
    then (if drop (length root) (butlast p) = [] then ''.''
          else join_str ''/'' (drop (length root) (butlast p)))
    else CHR ''/'' # join_str ''/'' (butlast p))"
  by (simp add: parent_rel_def relative_to_def parent_def rel_as_posix_def as_posix_def)

lemma replace_separators_explicit:
  "replace_char bs ''_'' (replace_char (CHR ''/'') ''_'' s) =
   map (\<lambda>c. if c = CHR ''/'' \<or> c = CHR 0x5C then CHR ''_'' else c) s"
  by (induction s) (simp_all add: replace_char_def bs_def)

text \<open>
  Claim C1. Name assignment is an ordered fold over the entries: the entry at position
  \<open>i\<close> keeps its base name when no earlier entry has that base name, and is otherwise
  named base, underscore, suffix. The suffix is the parent directory of the entry, as the
  path relative to the project root when the parent lies below it (\<open>.\<close> when it is the
  root itself) and as the absolute path otherwise, with every slash and backslash
  replaced by an underscore. The registry counts every entry of a base name, the first
  one and the later ones alike.
\<close>

theorem make_unique_names_ordered_fold:
  assumes "distinct paths" and "i < length paths"
  shows "make_unique_names paths f root (paths ! i) =
      Some (if f (paths ! i) \<in> f ` set (take i paths)
            then f (paths ! i) @ ''_'' @
              map (\<lambda>c. if c = CHR ''/'' \<or> c = CHR 0x5C then CHR ''_'' else c)
                (if take (length root) (butlast (paths ! i)) = root
                 then (if drop (length root) (butlast (paths ! i)) = [] then ''.''
                       else join_str ''/'' (drop (length root) (butlast (paths ! i))))
                 else CHR ''/'' # join_str ''/'' (butlast (paths ! i)))
            else f (paths ! i))
    \<and> seen_counts paths f root (f (paths ! i)) =
      Some (length (filter (\<lambda>p. f p = f (paths ! i)) paths))"
proof -
  from assms(2) have "f (paths ! i) \<in> f ` set paths" by simp
  then have s: "seen_counts paths f root (f (paths ! i)) =
      Some (length (filter (\<lambda>p. f p = f (paths ! i)) paths))"
    by (simp only: seen_counts_count if_True)
  have n: "name_suffix root (paths ! i) =
      map (\<lambda>c. if c = CHR ''/'' \<or> c = CHR 0x5C then CHR ''_'' else c)
        (if take (length root) (butlast (paths ! i)) = root
         then (if drop (length root) (butlast (paths ! i)) = [] then ''.''
               else join_str ''/'' (drop (length root) (butlast (paths ! i))))
         else CHR ''/'' # join_str ''/'' (butlast (paths ! i)))"
    unfolding name_suffix_def replace_separators_explicit
    by (simp only: parent_rel_explicit)
  from make_unique_names_nth [OF assms, of f root] s show ?thesis
    unfolding n by (intro conjI)
qed

theorem make_unique_names_ordered_fold_witness:
  "make_unique_names
     [[''P'', ''lib'', ''symbols'', ''a.kicad_sym''],
      [''P'', ''lib'', ''symbols'', ''sub'', ''a.kicad_sym''],
      [''Q'', ''sub'', ''a.kicad_sym''],
      [''P'', [CHR ''x'', CHR 0x5C, CHR ''y''], ''a.kicad_sym'']] stem [''P'']
     [''P'', ''lib'', ''symbols'', ''a.kicad_sym''] = Some ''a''
   \<and> make_unique_names
     [[''P'', ''lib'', ''symbols'', ''a.kicad_sym''],
      [''P'', ''lib'', ''symbols'', ''sub'', ''a.kicad_sym''],
      [''Q'', ''sub'', ''a.kicad_sym''],
      [''P'', [CHR ''x'', CHR 0x5C, CHR ''y''], ''a.kicad_sym'']] stem [''P'']
     [''P'', ''lib'', ''symbols'', ''sub'', ''a.kicad_sym''] = Some ''a_lib_symbols_sub''
   \<and> make_unique_names
     [[''P'', ''lib'', ''symbols'', ''a.kicad_sym''],
      [''P'', ''lib'', ''symbols'', ''sub'', ''a.kicad_sym''],
      [''Q'', ''sub'', ''a.kicad_sym''],
      [''P'', [CHR ''x'', CHR 0x5C, CHR ''y''], ''a.kicad_sym'']] stem [''P'']
     [''Q'', ''sub'', ''a.kicad_sym''] = Some ''a__Q_sub''
   \<and> make_unique_names
     [[''P'', ''lib'', ''symbols'', ''a.kicad_sym''],
      [''P'', ''lib'', ''symbols'', ''sub'', ''a.kicad_sym''],
      [''Q'', ''sub'', ''a.kicad_sym''],
      [''P'', [CHR ''x'', CHR 0x5C, CHR ''y''], ''a.kicad_sym'']] stem [''P'']
     [''P'', [CHR ''x'', CHR 0x5C, CHR ''y''], ''a.kicad_sym''] = Some ''a_x_y''
   \<and> seen_counts
     [[''P'', ''lib'', ''symbols'', ''a.kicad_sym''],
      [''P'', ''lib'', ''symbols'', ''sub'', ''a.kicad_sym''],
      [''Q'', ''sub'', ''a.kicad_sym''],
      [''P'', [CHR ''x'', CHR 0x5C, CHR ''y''], ''a.kicad_sym'']] stem [''P''] ''a'' = Some 4"
proof -
  let ?p1 = "[''P'', ''lib'', ''symbols'', ''a.kicad_sym'']"
  let ?p2 = "[''P'', ''lib'', ''symbols'', ''sub'', ''a.kicad_sym'']"
  let ?p3 = "[''Q'', ''sub'', ''a.kicad_sym'']"
  let ?p4 = "[''P'', [CHR ''x'', CHR 0x5C, CHR ''y''], ''a.kicad_sym'']"
  let ?ps = "[?p1, ?p2, ?p3, ?p4]"
  have d: "distinct ?ps" by simp
  have s: "stem ?p1 = ''a''" "stem ?p2 = ''a''" "stem ?p3 = ''a''" "stem ?p4 = ''a''"
    by (simp_all add: stem_def name_of_def rfind_def Let_def)
  have "(0::nat) < length ?ps" by simp
  from make_unique_names_ordered_fold [OF d this, of stem "[''P'']"]
  have 1: "make_unique_names ?ps stem [''P''] ?p1 = Some ''a''"
    by (simp add: s)
  have "(1::nat) < length ?ps" by simp
  from make_unique_names_ordered_fold [OF d this, of stem "[''P'']"]
  have 2: "make_unique_names ?ps stem [''P''] ?p2 = Some ''a_lib_symbols_sub''"
    by (simp add: s)
  have "(2::nat) < length ?ps" by simp
  from make_unique_names_ordered_fold [OF d this, of stem "[''P'']"]
  have 3: "make_unique_names ?ps stem [''P''] ?p3 = Some ''a__Q_sub''"
    by (simp add: s take_Suc_conv_app_nth)
  have "(3::nat) < length ?ps" by simp
  from make_unique_names_ordered_fold [OF d this, of stem "[''P'']"]
  have 4: "make_unique_names ?ps stem [''P''] ?p4 = Some ''a_x_y''"
    and 5: "seen_counts ?ps stem [''P''] ''a'' = Some 4"
    by (simp_all add: s take_Suc_conv_app_nth)
  from 1 2 3 4 5 show ?thesis by (intro conjI)
qed

lemma join_str_nonempty: "r \<noteq> [] \<Longrightarrow> hd r \<noteq> [] \<Longrightarrow> join_str sep r \<noteq> []"
  by (induction sep r rule: join_str.induct) simp_all

lemma parent_rel_nonempty: "[] \<notin> set p \<Longrightarrow> parent_rel root p \<noteq> []"
proof -
  assume a: "[] \<notin> set p"
  show ?thesis
  proof (cases "relative_to (parent p) root")
    case None
    then show ?thesis by (simp add: parent_rel_def as_posix_def)
  next
    case (Some r)
    then have r: "r = drop (length root) (butlast p)"
      by (auto simp: relative_to_def parent_def split: if_splits)
    show ?thesis
    proof (cases "r = []")
      case True
      with Some show ?thesis by (simp add: parent_rel_def rel_as_posix_def)
    next
      case False
      then have "hd r \<in> set r" by simp
      also have "set r \<subseteq> set p" unfolding r
        by (meson in_set_butlastD set_drop_subset subsetI subset_trans subsetD)
      finally have "hd r \<noteq> []" using a by auto
      with False Some show ?thesis
        by (simp add: parent_rel_def rel_as_posix_def join_str_nonempty)
    qed
  qed
qed

lemma name_suffix_at_root: "parent p = root \<Longrightarrow> name_suffix root p = ''.''"
  by (simp add: name_suffix_def parent_rel_def relative_to_def rel_as_posix_def replace_char_def
      bs_def)

text \<open>
  Claim C10. A colliding entry whose parent directory is the project root gets the
  suffix \<open>.\<close>, so its name is the base name followed by \<open>_.\<close>; and the suffix of a path
  with no empty component is never empty.
\<close>

theorem collision_below_project_root:
  assumes "distinct paths" and "i < length paths"
    and "f (paths ! i) \<in> f ` set (take i paths)"
    and "parent (paths ! i) = root"
  shows "make_unique_names paths f root (paths ! i) = Some (f (paths ! i) @ ''_.'')
    \<and> name_suffix root (paths ! i) = ''.''
    \<and> (\<forall>r q. [] \<notin> set q \<longrightarrow> name_suffix r q \<noteq> [])"
proof -
  have "name_suffix r q \<noteq> []" if "[] \<notin> set q" for r q
    using parent_rel_nonempty [OF that, of r] by (simp add: name_suffix_chars)
  with make_unique_names_nth [OF assms(1,2), of f root] assms(3) name_suffix_at_root [OF assms(4)]
  show ?thesis by simp
qed

theorem collision_below_project_root_witness:
  "make_unique_names [[''P'', ''a.kicad_sym''], [''P'', ''a.txt'']] stem [''P'']
     [''P'', ''a.txt''] = Some ''a_.''
   \<and> name_suffix [''P''] [''P'', ''a.txt''] = ''.''
   \<and> name_suffix [''P''] [''P'', ''lib'', ''a.txt''] \<noteq> []"
proof -
  let ?p1 = "[''P'', ''a.kicad_sym'']"
  let ?p2 = "[''P'', ''a.txt'']"
  have d: "distinct [?p1, ?p2]" by simp
  have l: "(1::nat) < length [?p1, ?p2]" by simp
  have s: "stem ?p1 = ''a''" "stem ?p2 = ''a''"
    by (simp_all add: stem_def name_of_def rfind_def Let_def)
  have c: "stem ([?p1, ?p2] ! 1) \<in> stem ` set (take 1 [?p1, ?p2])"
    by (simp add: s)
  have p: "parent ([?p1, ?p2] ! 1) = [''P'']" by (simp add: parent_def)
  have n: "[] \<notin> set [''P'', ''lib'', ''a.txt'']" by simp
  from collision_below_project_root [OF d l c p] n show ?thesis
    by (simp add: s)
qed

section \<open>Generation succeeds below the project root\<close>

lemma lib_lines_ok:
  assumes "set ps \<subseteq> dom name_map" and "\<forall>p \<in> set ps. take (length root) p = root"
  shows "\<exists>ls. lib_lines name_map root ps = Inr ls \<and> length ls = length ps"
  using assms
proof (induction ps)
  case Nil
  show ?case by simp
next
  case (Cons p ps)
  then obtain ls where ls: "lib_lines name_map root ps = Inr ls" "length ls = length ps"
    by auto
  from Cons.prems obtain n where n: "name_map p = Some n" by auto
  from Cons.prems have "relative_to p root = Some (drop (length root) p)"
    by (simp add: relative_to_def)
  with ls n show ?case by simp
qed

lemma set_sort_paths: "set (sort_paths lower ps) = set ps"
  by (simp add: sort_paths_def)

lemma length_sort_paths: "length (sort_paths lower ps) = length ps"
  by (simp add: sort_paths_def)

lemma sym_files_below: "p \<in> set (sym_files lower d t) \<Longrightarrow> \<exists>q. q \<noteq> [] \<and> p = d @ q"
  by (auto simp: sym_files_def set_sort_paths dest: rglob_prefix)

lemma pretty_dirs_below: "p \<in> set (pretty_dirs lower d t) \<Longrightarrow> \<exists>q. q \<noteq> [] \<and> p = d @ q"
  by (auto simp: pretty_dirs_def set_sort_paths dest: rglob_prefix)

lemma take_root_below:
  "take (length root) d = root \<Longrightarrow> take (length root) (d @ q) = root"
  by (metis append_eq_conv_conj append_take_drop_id append_assoc)

lemma join_lines: "join_str [nl] (ls @ [f]) = concat (map (\<lambda>l. l @ [nl]) ls) @ f"
  by (induction ls rule: induct_list012) simp_all

lemma document_lines:
  "document (h # ls @ [f]) = h @ nl # concat (map (\<lambda>l. l @ [nl]) ls) @ f @ [nl]"
proof -
  have "join_str [nl] (h # ls @ [f]) = h @ [nl] @ join_str [nl] (ls @ [f])"
    by (cases ls) simp_all
  then show ?thesis by (simp add: document_def join_lines)
qed

lemma sym_header_text: "rstrip_nl SYM_HEADER @ nl # rest = SYM_HEADER @ rest"
  by (simp add: rstrip_nl_def SYM_HEADER_def nl_def)

lemma fp_header_text: "rstrip_nl FP_HEADER @ nl # rest = FP_HEADER @ rest"
  by (simp add: rstrip_nl_def FP_HEADER_def nl_def)

lemma footer_text: "rstrip_nl FOOTER @ [nl] = FOOTER"
  by (simp add: rstrip_nl_def FOOTER_def nl_def)

lemma sym_document:
  "document (rstrip_nl SYM_HEADER # ls @ [rstrip_nl FOOTER]) =
   SYM_HEADER @ concat (map (\<lambda>l. l @ [nl]) ls) @ FOOTER"
  by (simp add: document_lines sym_header_text footer_text)

lemma fp_document:
  "document (rstrip_nl FP_HEADER # b # ls @ [rstrip_nl FOOTER]) =
   FP_HEADER @ b @ [nl] @ concat (map (\<lambda>l. l @ [nl]) ls) @ FOOTER"
  using document_lines [of "rstrip_nl FP_HEADER" "b # ls" "rstrip_nl FOOTER"]
  by (simp add: fp_header_text footer_text)

lemma sym_lines_ok:
  assumes "take (length root) d = root"
  shows "\<exists>ls. lib_lines (make_unique_names (sym_files lower d t) stem root) root (sym_files lower d t) = Inr ls
    \<and> length ls = length (sym_files lower d t)"
proof (rule lib_lines_ok)
  show "set (sym_files lower d t) \<subseteq> dom (make_unique_names (sym_files lower d t) stem root)"
    by (simp add: dom_make_unique_names)
  show "\<forall>p \<in> set (sym_files lower d t). take (length root) p = root"
    using assms by (auto dest!: sym_files_below simp: take_root_below simp del: take_append)
qed

lemma pretty_lines_ok:
  assumes "take (length root) d = root"
  shows "\<exists>ls. lib_lines (make_unique_names (pretty_dirs lower d t) pretty_base root) root
      (pretty_dirs lower d t) = Inr ls
    \<and> length ls = length (pretty_dirs lower d t)"
proof (rule lib_lines_ok)
  show "set (pretty_dirs lower d t) \<subseteq> dom (make_unique_names (pretty_dirs lower d t) pretty_base root)"
    by (simp add: dom_make_unique_names)
  show "\<forall>p \<in> set (pretty_dirs lower d t). take (length root) p = root"
    using assms by (auto dest!: pretty_dirs_below simp: take_root_below simp del: take_append)
qed

lemma generate_sym_ok:
  assumes "lib_lines (make_unique_names (sym_files lower d t) stem root) root (sym_files lower d t) = Inr ls"
  shows "generate_sym_lib_table lower root d (Some t) =
    Inr (SYM_HEADER @ concat (map (\<lambda>l. l @ [nl]) ls) @ FOOTER)"
  using assms by (simp add: generate_sym_lib_table_def Let_def sym_document)

lemma generate_fp_ok:
  assumes "take (length root) d = root"
    and "lib_lines (make_unique_names (pretty_dirs lower d t) pretty_base root) root (pretty_dirs lower d t)
      = Inr ls"
  shows "generate_fp_lib_table lower root d (Some t) =
    Inr (FP_HEADER @ make_lib_line ''footprints'' (KIPRJMOD @ rel_as_posix (drop (length root) d))
      @ [nl] @ concat (map (\<lambda>l. l @ [nl]) ls) @ FOOTER)"
  using assms by (simp add: generate_fp_lib_table_def Let_def relative_to_def fp_document)

section \<open>The documents and the driver\<close>




lemma take_butlast_append: "take (length (butlast xs)) (xs @ ys) = butlast xs"
  by (simp add: butlast_conv_take)

text \<open>
  Claim C5. Whatever the tree holds (also no \<open>.pretty\<close> directory at all), the footprint
  document is the header, then the line of the synthetic entry \<open>footprints\<close> whose URI is
  the scan directory relative to the project root, then one line per discovered
  directory, then the footer; the symbol document is the header, one line per discovered
  file and the footer, with no other line.
\<close>

theorem footprints_entry_first:
  assumes "take (length root) fd = root" and "take (length root) sd = root"
  shows "\<exists>ls ls'.
      lib_lines (make_unique_names (pretty_dirs lower fd t) pretty_base root) root (pretty_dirs lower fd t)
        = Inr ls
    \<and> length ls = length (pretty_dirs lower fd t)
    \<and> generate_fp_lib_table lower root fd (Some t) =
        Inr (FP_HEADER @
          make_lib_line ''footprints'' (KIPRJMOD @ rel_as_posix (drop (length root) fd)) @ [nl] @
          concat (map (\<lambda>l. l @ [nl]) ls) @ FOOTER)
    \<and> lib_lines (make_unique_names (sym_files lower sd t') stem root) root (sym_files lower sd t') = Inr ls'
    \<and> length ls' = length (sym_files lower sd t')
    \<and> generate_sym_lib_table lower root sd (Some t') =
        Inr (SYM_HEADER @ concat (map (\<lambda>l. l @ [nl]) ls') @ FOOTER)"
proof -
  from pretty_lines_ok [OF assms(1), where t = t and lower = lower] obtain ls where
    ls: "lib_lines (make_unique_names (pretty_dirs lower fd t) pretty_base root) root (pretty_dirs lower fd t)
      = Inr ls" "length ls = length (pretty_dirs lower fd t)"
    by blast
  from sym_lines_ok [OF assms(2), where t = t' and lower = lower] obtain ls' where
    ls': "lib_lines (make_unique_names (sym_files lower sd t') stem root) root (sym_files lower sd t') = Inr ls'"
      "length ls' = length (sym_files lower sd t')"
    by blast
  from ls ls' generate_fp_ok [OF assms(1) ls(1)] generate_sym_ok [OF ls'(1)]
  show ?thesis by blast
qed

theorem footprints_entry_first_witness:
  "generate_fp_lib_table ascii_lower [''P''] [''P'', ''lib'', ''footprints''] (Some (Dir [])) =
     Inr (FP_HEADER @ make_lib_line ''footprints'' ''${KIPRJMOD}/lib/footprints'' @ [nl] @ FOOTER)
   \<and> generate_sym_lib_table ascii_lower [''P''] [''P'', ''lib'', ''symbols''] (Some (Dir [])) =
     Inr (SYM_HEADER @ FOOTER)"
proof -
  have a: "take (length [''P'']) [''P'', ''lib'', ''footprints''] = [''P'']"
    and b: "take (length [''P'']) [''P'', ''lib'', ''symbols''] = [''P'']"
    by simp_all
  have p: "pretty_dirs ascii_lower [''P'', ''lib'', ''footprints''] (Dir []) = []"
    and s: "sym_files ascii_lower [''P'', ''lib'', ''symbols''] (Dir []) = []"
    by (simp_all add: pretty_dirs_def sym_files_def sort_paths_def)
  have u: "KIPRJMOD @ rel_as_posix (drop (length [''P'']) [''P'', ''lib'', ''footprints''])
      = ''${KIPRJMOD}/lib/footprints''"
    by (simp add: KIPRJMOD_def rel_as_posix_def)
  from footprints_entry_first [OF a b, where t = "Dir []" and t' = "Dir []" and lower = ascii_lower] show ?thesis
    unfolding p s u by auto
qed



text \<open>
  Claim C4. When the symbols directory is missing, or it exists and the footprints
  directory is missing, the run ends with status 1, one message on the diagnostic stream
  that names the missing directory, nothing on the standard output and no file written.
  The files are written only after both documents have been generated: whenever the run
  writes anything, both generators have returned and exactly their two documents are
  written.
\<close>

theorem missing_directory_writes_nothing:
  "(fs (parent sp @ [''symbols'']) = None \<longrightarrow>
      main lower a sp fs =
        \<lparr>exit_status = 1,
         stderr = [''Error: Symbols directory not found: '' @ as_posix (parent sp @ [''symbols''])],
         stdout = [], written = []\<rparr>)
   \<and> (fs (parent sp @ [''symbols'']) \<noteq> None \<and> fs (parent sp @ [''footprints'']) = None \<longrightarrow>
      main lower a sp fs =
        \<lparr>exit_status = 1,
         stderr = [''Error: Footprints directory not found: '' @
           as_posix (parent sp @ [''footprints''])],
         stdout = [], written = []\<rparr>)
   \<and> (written (main lower a sp fs) \<noteq> [] \<longrightarrow>
      (\<exists>s f.
         generate_sym_lib_table lower (parent (parent sp)) (parent sp @ [''symbols''])
           (fs (parent sp @ [''symbols''])) = Inr s
       \<and> generate_fp_lib_table lower (parent (parent sp)) (parent sp @ [''footprints''])
           (fs (parent sp @ [''footprints''])) = Inr f
       \<and> written (main lower a sp fs) =
           [(path_join (parent (parent sp)) (sym_out a), s),
            (path_join (parent (parent sp)) (fp_out a), f)]))"
proof -
  let ?root = "parent (parent sp)"
  let ?sd = "parent sp @ [''symbols'']"
  let ?fd = "parent sp @ [''footprints'']"
  have 1: "main lower a sp fs =
        \<lparr>exit_status = 1,
         stderr = [''Error: Symbols directory not found: '' @ as_posix ?sd],
         stdout = [], written = []\<rparr>" if "fs ?sd = None"
    using that by (simp add: main_def Let_def generate_sym_lib_table_def)
  have 2: "main lower a sp fs =
        \<lparr>exit_status = 1,
         stderr = [''Error: Footprints directory not found: '' @ as_posix ?fd],
         stdout = [], written = []\<rparr>" if "fs ?sd \<noteq> None" "fs ?fd = None"
  proof -
    from that obtain t where t: "fs ?sd = Some t" by auto
    have "take (length ?root) ?sd = ?root"
      unfolding parent_def by (rule take_butlast_append)
    from sym_lines_ok [OF this, where t = t and lower = lower] obtain ls where
      "lib_lines (make_unique_names (sym_files lower ?sd t) stem ?root) ?root (sym_files lower ?sd t) = Inr ls"
      by blast
    from generate_sym_ok [OF this] t that(2) show ?thesis
      by (simp add: main_def Let_def generate_fp_lib_table_def)
  qed
  have 3: "\<exists>s f. generate_sym_lib_table lower ?root ?sd (fs ?sd) = Inr s
       \<and> generate_fp_lib_table lower ?root ?fd (fs ?fd) = Inr f
       \<and> written (main lower a sp fs) =
           [(path_join ?root (sym_out a), s), (path_join ?root (fp_out a), f)]"
    if "written (main lower a sp fs) \<noteq> []"
    using that by (auto simp: main_def Let_def split: sum.splits if_splits)
  from 1 2 3 show ?thesis by blast
qed

theorem missing_directory_writes_nothing_witness:
  "main ascii_lower \<lparr>sym_out = ''sym-lib-table'', fp_out = ''fp-lib-table'', dry_run = False\<rparr>
      [''P'', ''lib'', ''gen_lib_tables.py''] (\<lambda>p. None) =
     \<lparr>exit_status = 1, stderr = [''Error: Symbols directory not found: /P/lib/symbols''],
      stdout = [], written = []\<rparr>
   \<and> main ascii_lower \<lparr>sym_out = ''sym-lib-table'', fp_out = ''fp-lib-table'', dry_run = False\<rparr>
      [''P'', ''lib'', ''gen_lib_tables.py'']
      (\<lambda>p. if p = [''P'', ''lib'', ''symbols''] then Some (Dir []) else None) =
     \<lparr>exit_status = 1, stderr = [''Error: Footprints directory not found: /P/lib/footprints''],
      stdout = [], written = []\<rparr>"
proof -
  let ?a = "\<lparr>sym_out = ''sym-lib-table'', fp_out = ''fp-lib-table'', dry_run = False\<rparr>"
  let ?sp = "[''P'', ''lib'', ''gen_lib_tables.py'']"
  let ?fs = "\<lambda>p. if p = [''P'', ''lib'', ''symbols''] then Some (Dir []) else (None :: fsnode option)"
  have p: "parent ?sp = [''P'', ''lib'']" by (simp add: parent_def)
  have s: "as_posix [''P'', ''lib'', ''symbols''] = ''/P/lib/symbols''"
    and f: "as_posix [''P'', ''lib'', ''footprints''] = ''/P/lib/footprints''"
    by (simp_all add: as_posix_def)
  from missing_directory_writes_nothing
    [where fs = "\<lambda>p. None" and sp = ?sp and a = ?a and lower = ascii_lower]
  have 1: "main ascii_lower ?a ?sp (\<lambda>p. None) =
     \<lparr>exit_status = 1, stderr = [''Error: Symbols directory not found: /P/lib/symbols''],
      stdout = [], written = []\<rparr>"
    by (simp add: p s)
  from missing_directory_writes_nothing
    [where fs = ?fs and sp = ?sp and a = ?a and lower = ascii_lower]
  have 2: "main ascii_lower ?a ?sp ?fs =
     \<lparr>exit_status = 1, stderr = [''Error: Footprints directory not found: /P/lib/footprints''],
      stdout = [], written = []\<rparr>"
    by (simp add: p f)
  from 1 2 show ?thesis by (intro conjI)
qed

section \<open>Ordering, determinism, discovery and uniqueness\<close>

lemmas discovery_eval =
  sym_files_def pretty_dirs_def sort_paths_def is_kicad_sym_def is_pretty_def endswith_def
  as_posix_def ascii_lower_def ascii_lower_char_def

text \<open>
  Claim C6, as stated, fails. The sort key is the lower-cased path alone and the sort is
  stable, so two entries that differ only in case stay in the order of the directory
  listing: here \<open>a.kicad_sym\<close> is listed first and stays first, although the path of
  \<open>A.kicad_sym\<close> is the smaller string.
\<close>

theorem case_ties_keep_listing_order:
  "sym_files ascii_lower [''P'', ''lib'', ''symbols'']
      (Dir [(''a.kicad_sym'', File), (''A.kicad_sym'', File)]) =
     [[''P'', ''lib'', ''symbols'', ''a.kicad_sym''], [''P'', ''lib'', ''symbols'', ''A.kicad_sym'']]
   \<and> ascii_lower (as_posix [''P'', ''lib'', ''symbols'', ''a.kicad_sym'']) =
     ascii_lower (as_posix [''P'', ''lib'', ''symbols'', ''A.kicad_sym''])
   \<and> as_posix [''P'', ''lib'', ''symbols'', ''A.kicad_sym''] <
     as_posix [''P'', ''lib'', ''symbols'', ''a.kicad_sym'']"
  by (simp add: discovery_eval)

lemma lib_lines_map:
  assumes "set ps \<subseteq> dom name_map" and "\<forall>p \<in> set ps. take (length root) p = root"
  shows "lib_lines name_map root ps =
    Inr (map (\<lambda>p. make_lib_line (the (name_map p)) (KIPRJMOD @ rel_as_posix (drop (length root) p)))
      ps)"
  using assms
proof (induction ps)
  case Nil
  show ?case by simp
next
  case (Cons p ps)
  from Cons.prems obtain n where n: "name_map p = Some n" by auto
  from Cons.prems have r: "relative_to p root = Some (drop (length root) p)"
    by (simp add: relative_to_def)
  from Cons have "lib_lines name_map root ps =
    Inr (map (\<lambda>p. make_lib_line (the (name_map p)) (KIPRJMOD @ rel_as_posix (drop (length root) p)))
      ps)"
    by simp
  with n r show ?case by simp
qed

lemma sym_lines_map:
  assumes "take (length root) d = root"
  shows "lib_lines (make_unique_names (sym_files lower d t) stem root) root (sym_files lower d t) =
    Inr (map (\<lambda>p. make_lib_line (the (make_unique_names (sym_files lower d t) stem root p))
          (KIPRJMOD @ rel_as_posix (drop (length root) p)))
      (sym_files lower d t))"
proof (rule lib_lines_map)
  show "set (sym_files lower d t) \<subseteq> dom (make_unique_names (sym_files lower d t) stem root)"
    by (simp add: dom_make_unique_names)
  show "\<forall>p \<in> set (sym_files lower d t). take (length root) p = root"
    using assms by (auto dest!: sym_files_below simp: take_root_below simp del: take_append)
qed

lemma pretty_lines_map:
  assumes "take (length root) d = root"
  shows "lib_lines (make_unique_names (pretty_dirs lower d t) pretty_base root) root
      (pretty_dirs lower d t) =
    Inr (map (\<lambda>p. make_lib_line (the (make_unique_names (pretty_dirs lower d t) pretty_base root p))
          (KIPRJMOD @ rel_as_posix (drop (length root) p)))
      (pretty_dirs lower d t))"
proof (rule lib_lines_map)
  show "set (pretty_dirs lower d t) \<subseteq>
      dom (make_unique_names (pretty_dirs lower d t) pretty_base root)"
    by (simp add: dom_make_unique_names)
  show "\<forall>p \<in> set (pretty_dirs lower d t). take (length root) p = root"
    using assms by (auto dest!: pretty_dirs_below simp: take_root_below simp del: take_append)
qed

text \<open>
  Claim C6, amended. The entries of both documents are sorted ascending by the
  lower-cased string form of their path, and the sort is stable: the entries that share a
  key are in the order in which discovery produced them. The lines of each document
  (after the synthetic line of the footprint document) are the lines of these entries, in
  this order.
\<close>

theorem discovered_entries_sorted_stable:
  "sorted (map (\<lambda>p. lower (as_posix p)) (sym_files lower d t))
   \<and> sorted (map (\<lambda>p. lower (as_posix p)) (pretty_dirs lower d t))
   \<and> filter (\<lambda>p. lower (as_posix p) = k) (sym_files lower d t) =
     filter (\<lambda>p. lower (as_posix p) = k) (map fst (rglob is_kicad_sym d t))
   \<and> filter (\<lambda>p. lower (as_posix p) = k) (pretty_dirs lower d t) =
     filter (\<lambda>p. lower (as_posix p) = k)
       (map fst (filter (\<lambda>e. is_dir (snd e)) (rglob is_pretty d t)))
   \<and> (take (length root) d = root \<longrightarrow>
       generate_sym_lib_table lower root d (Some t) =
         Inr (SYM_HEADER @
           concat (map (\<lambda>p.
               make_lib_line (the (make_unique_names (sym_files lower d t) stem root p))
                 (KIPRJMOD @ rel_as_posix (drop (length root) p)) @ [nl])
             (sym_files lower d t)) @
           FOOTER)
     \<and> generate_fp_lib_table lower root d (Some t) =
         Inr (FP_HEADER @
           make_lib_line ''footprints'' (KIPRJMOD @ rel_as_posix (drop (length root) d)) @ [nl] @
           concat (map (\<lambda>p.
               make_lib_line (the (make_unique_names (pretty_dirs lower d t) pretty_base root p))
                 (KIPRJMOD @ rel_as_posix (drop (length root) p)) @ [nl])
             (pretty_dirs lower d t)) @
           FOOTER))"
proof -
  have 1: "sorted (map (\<lambda>p. lower (as_posix p)) (sym_files lower d t))"
    "sorted (map (\<lambda>p. lower (as_posix p)) (pretty_dirs lower d t))"
    unfolding sym_files_def pretty_dirs_def sort_paths_def by (rule sorted_sort_key)+
  have 2: "filter (\<lambda>p. lower (as_posix p) = k) (sym_files lower d t) =
     filter (\<lambda>p. lower (as_posix p) = k) (map fst (rglob is_kicad_sym d t))"
    "filter (\<lambda>p. lower (as_posix p) = k) (pretty_dirs lower d t) =
     filter (\<lambda>p. lower (as_posix p) = k)
       (map fst (filter (\<lambda>e. is_dir (snd e)) (rglob is_pretty d t)))"
    unfolding sym_files_def pretty_dirs_def sort_paths_def by (rule sort_key_stable)+
  have 3: "generate_sym_lib_table lower root d (Some t) =
         Inr (SYM_HEADER @
           concat (map (\<lambda>p.
               make_lib_line (the (make_unique_names (sym_files lower d t) stem root p))
                 (KIPRJMOD @ rel_as_posix (drop (length root) p)) @ [nl])
             (sym_files lower d t)) @
           FOOTER)" if "take (length root) d = root"
    using generate_sym_ok [OF sym_lines_map [OF that]] by (simp add: comp_def)
  have 4: "generate_fp_lib_table lower root d (Some t) =
         Inr (FP_HEADER @
           make_lib_line ''footprints'' (KIPRJMOD @ rel_as_posix (drop (length root) d)) @ [nl] @
           concat (map (\<lambda>p.
               make_lib_line (the (make_unique_names (pretty_dirs lower d t) pretty_base root p))
                 (KIPRJMOD @ rel_as_posix (drop (length root) p)) @ [nl])
             (pretty_dirs lower d t)) @
           FOOTER)" if "take (length root) d = root"
    using generate_fp_ok [OF that pretty_lines_map [OF that]] by (simp add: comp_def)
  from 1 2 3 4 show ?thesis by blast
qed

theorem discovered_entries_sorted_stable_witness:
  "generate_sym_lib_table ascii_lower [''P''] [''P'', ''lib'', ''symbols'']
     (Some (Dir [(''b.kicad_sym'', File), (''a.kicad_sym'', File), (''A.kicad_sym'', File)])) =
   Inr (SYM_HEADER @
     make_lib_line ''a'' ''${KIPRJMOD}/lib/symbols/a.kicad_sym'' @ [nl] @
     make_lib_line ''A'' ''${KIPRJMOD}/lib/symbols/A.kicad_sym'' @ [nl] @
     make_lib_line ''b'' ''${KIPRJMOD}/lib/symbols/b.kicad_sym'' @ [nl] @
     FOOTER)"
proof -
  let ?d = "[''P'', ''lib'', ''symbols'']"
  let ?t = "Dir [(''b.kicad_sym'', File), (''a.kicad_sym'', File), (''A.kicad_sym'', File)]"
  have r: "take (length [''P'']) ?d = [''P'']" by simp
  have f: "sym_files ascii_lower ?d ?t =
      [[''P'', ''lib'', ''symbols'', ''a.kicad_sym''],
       [''P'', ''lib'', ''symbols'', ''A.kicad_sym''],
       [''P'', ''lib'', ''symbols'', ''b.kicad_sym'']]"
    by (simp add: discovery_eval)
  from discovered_entries_sorted_stable [where lower = ascii_lower and d = ?d and t = ?t
      and root = "[''P'']"] r
  have "generate_sym_lib_table ascii_lower [''P''] ?d (Some ?t) =
         Inr (SYM_HEADER @
           concat (map (\<lambda>p.
               make_lib_line (the (make_unique_names (sym_files ascii_lower ?d ?t) stem [''P''] p))
                 (KIPRJMOD @ rel_as_posix (drop (length [''P'']) p)) @ [nl])
             (sym_files ascii_lower ?d ?t)) @
           FOOTER)"
    by blast
  then show ?thesis
    unfolding f
    by (simp add: make_unique_names_def stem_def name_of_def rfind_def Let_def
        rel_as_posix_def KIPRJMOD_def)
qed

lemma sort_paths_perm:
  assumes "distinct xs" and "distinct ys" and "set xs = set ys"
    and "inj_on (\<lambda>p. lower (as_posix p)) (set xs)"
  shows "sort_paths lower xs = sort_paths lower ys"
proof -
  let ?k = "\<lambda>p. lower (as_posix p)"
  have "map ?k (sort_key ?k xs) = map ?k (sort_key ?k ys)"
  proof (rule sorted_distinct_set_unique)
    show "sorted (map ?k (sort_key ?k xs))" "sorted (map ?k (sort_key ?k ys))"
      by (rule sorted_sort_key)+
    show "distinct (map ?k (sort_key ?k xs))"
      using assms(1,4) by (simp add: distinct_map)
    show "distinct (map ?k (sort_key ?k ys))"
      using assms(2,3,4) by (simp add: distinct_map)
    show "set (map ?k (sort_key ?k xs)) = set (map ?k (sort_key ?k ys))"
      using assms(3) by simp
  qed
  moreover have "inj_on ?k (set (sort_key ?k xs) \<union> set (sort_key ?k ys))"
    using assms(3,4) by simp
  ultimately show ?thesis
    unfolding sort_paths_def by (simp only: inj_on_map_eq_map)
qed

lemma generate_sym_cong:
  "sym_files lower d t1 = sym_files lower d t2 \<Longrightarrow>
   generate_sym_lib_table lower root d (Some t1) = generate_sym_lib_table lower root d (Some t2)"
  by (simp add: generate_sym_lib_table_def)

lemma generate_fp_cong:
  "pretty_dirs lower d t1 = pretty_dirs lower d t2 \<Longrightarrow>
   generate_fp_lib_table lower root d (Some t1) = generate_fp_lib_table lower root d (Some t2)"
  by (simp add: generate_fp_lib_table_def)

text \<open>
  Claim C8, as stated, fails. The two trees below hold the same files,
  \<open>ad/x.kicad_sym\<close> and \<open>Ad/x.kicad_sym\<close>, and differ only in the order in which the
  two directories are listed. The paths tie under the lower-cased key, the stable sort
  keeps the listing order, and the entry that comes first gets the bare name: the two
  symbol documents differ.
\<close>

theorem listing_order_changes_document:
  "set (map fst (rglob is_kicad_sym [''P'', ''lib'', ''symbols'']
      (Dir [(''ad'', Dir [(''x.kicad_sym'', File)]), (''Ad'', Dir [(''x.kicad_sym'', File)])]))) =
   set (map fst (rglob is_kicad_sym [''P'', ''lib'', ''symbols'']
      (Dir [(''Ad'', Dir [(''x.kicad_sym'', File)]), (''ad'', Dir [(''x.kicad_sym'', File)])])))
   \<and> generate_sym_lib_table ascii_lower [''P''] [''P'', ''lib'', ''symbols'']
      (Some (Dir [(''ad'', Dir [(''x.kicad_sym'', File)]),
                  (''Ad'', Dir [(''x.kicad_sym'', File)])])) =
     Inr (SYM_HEADER @
       make_lib_line ''x'' ''${KIPRJMOD}/lib/symbols/ad/x.kicad_sym'' @ [nl] @
       make_lib_line ''x_lib_symbols_Ad'' ''${KIPRJMOD}/lib/symbols/Ad/x.kicad_sym'' @ [nl] @
       FOOTER)
   \<and> generate_sym_lib_table ascii_lower [''P''] [''P'', ''lib'', ''symbols'']
      (Some (Dir [(''Ad'', Dir [(''x.kicad_sym'', File)]),
                  (''ad'', Dir [(''x.kicad_sym'', File)])])) =
     Inr (SYM_HEADER @
       make_lib_line ''x'' ''${KIPRJMOD}/lib/symbols/Ad/x.kicad_sym'' @ [nl] @
       make_lib_line ''x_lib_symbols_ad'' ''${KIPRJMOD}/lib/symbols/ad/x.kicad_sym'' @ [nl] @
       FOOTER)
   \<and> generate_sym_lib_table ascii_lower [''P''] [''P'', ''lib'', ''symbols'']
      (Some (Dir [(''ad'', Dir [(''x.kicad_sym'', File)]),
                  (''Ad'', Dir [(''x.kicad_sym'', File)])])) \<noteq>
     generate_sym_lib_table ascii_lower [''P''] [''P'', ''lib'', ''symbols'']
      (Some (Dir [(''Ad'', Dir [(''x.kicad_sym'', File)]),
                  (''ad'', Dir [(''x.kicad_sym'', File)])]))"
proof -
  let ?d = "[''P'', ''lib'', ''symbols'']"
  let ?t1 = "Dir [(''ad'', Dir [(''x.kicad_sym'', File)]), (''Ad'', Dir [(''x.kicad_sym'', File)])]"
  let ?t2 = "Dir [(''Ad'', Dir [(''x.kicad_sym'', File)]), (''ad'', Dir [(''x.kicad_sym'', File)])]"
  let ?doc1 = "SYM_HEADER @
       make_lib_line ''x'' ''${KIPRJMOD}/lib/symbols/ad/x.kicad_sym'' @ [nl] @
       make_lib_line ''x_lib_symbols_Ad'' ''${KIPRJMOD}/lib/symbols/Ad/x.kicad_sym'' @ [nl] @
       FOOTER"
  let ?doc2 = "SYM_HEADER @
       make_lib_line ''x'' ''${KIPRJMOD}/lib/symbols/Ad/x.kicad_sym'' @ [nl] @
       make_lib_line ''x_lib_symbols_ad'' ''${KIPRJMOD}/lib/symbols/ad/x.kicad_sym'' @ [nl] @
       FOOTER"
  have s: "set (map fst (rglob is_kicad_sym ?d ?t1)) = set (map fst (rglob is_kicad_sym ?d ?t2))"
    by (auto simp: is_kicad_sym_def endswith_def)
  have f1: "sym_files ascii_lower ?d ?t1 =
      [[''P'', ''lib'', ''symbols'', ''ad'', ''x.kicad_sym''],
       [''P'', ''lib'', ''symbols'', ''Ad'', ''x.kicad_sym'']]"
    and f2: "sym_files ascii_lower ?d ?t2 =
      [[''P'', ''lib'', ''symbols'', ''Ad'', ''x.kicad_sym''],
       [''P'', ''lib'', ''symbols'', ''ad'', ''x.kicad_sym'']]"
    by (simp_all add: discovery_eval)
  have "lib_lines (make_unique_names (sym_files ascii_lower ?d ?t1) stem [''P'']) [''P'']
      (sym_files ascii_lower ?d ?t1) =
    Inr [make_lib_line ''x'' ''${KIPRJMOD}/lib/symbols/ad/x.kicad_sym'',
         make_lib_line ''x_lib_symbols_Ad'' ''${KIPRJMOD}/lib/symbols/Ad/x.kicad_sym'']"
    unfolding f1
    by (simp add: make_unique_names_def stem_def name_of_def rfind_def Let_def name_suffix_def
        parent_rel_def parent_def relative_to_def rel_as_posix_def replace_char_def bs_def
        KIPRJMOD_def)
  from generate_sym_ok [OF this]
  have g1: "generate_sym_lib_table ascii_lower [''P''] ?d (Some ?t1) = Inr ?doc1" by simp
  have "lib_lines (make_unique_names (sym_files ascii_lower ?d ?t2) stem [''P'']) [''P'']
      (sym_files ascii_lower ?d ?t2) =
    Inr [make_lib_line ''x'' ''${KIPRJMOD}/lib/symbols/Ad/x.kicad_sym'',
         make_lib_line ''x_lib_symbols_ad'' ''${KIPRJMOD}/lib/symbols/ad/x.kicad_sym'']"
    unfolding f2
    by (simp add: make_unique_names_def stem_def name_of_def rfind_def Let_def name_suffix_def
        parent_rel_def parent_def relative_to_def rel_as_posix_def replace_char_def bs_def
        KIPRJMOD_def)
  from generate_sym_ok [OF this]
  have g2: "generate_sym_lib_table ascii_lower [''P''] ?d (Some ?t2) = Inr ?doc2" by simp
  have "?doc1 \<noteq> ?doc2"
    by (simp add: make_lib_line_def kicad_escape_def replace_char_def dq_def bs_def)
  with g1 g2 have n: "generate_sym_lib_table ascii_lower [''P''] ?d (Some ?t1) \<noteq>
      generate_sym_lib_table ascii_lower [''P''] ?d (Some ?t2)"
    by simp
  from s g1 g2 n show ?thesis by (intro conjI)
qed

text \<open>
  Claim C8, amended. For two snapshots with the same project root, the same scan
  directory and the same set of discovered paths, no two of which have the same
  lower-cased form, the symbol documents are identical byte for byte, and so are the
  footprint documents, whatever the order in which the directories are listed.
\<close>

theorem generation_deterministic:
  "(distinct (map fst (rglob is_kicad_sym d t1)) \<and> distinct (map fst (rglob is_kicad_sym d t2))
       \<and> set (map fst (rglob is_kicad_sym d t1)) = set (map fst (rglob is_kicad_sym d t2))
       \<and> inj_on (\<lambda>p. lower (as_posix p)) (set (map fst (rglob is_kicad_sym d t1))) \<longrightarrow>
      generate_sym_lib_table lower root d (Some t1) = generate_sym_lib_table lower root d (Some t2))
   \<and> (distinct (map fst (filter (\<lambda>e. is_dir (snd e)) (rglob is_pretty d t1)))
       \<and> distinct (map fst (filter (\<lambda>e. is_dir (snd e)) (rglob is_pretty d t2)))
       \<and> set (map fst (filter (\<lambda>e. is_dir (snd e)) (rglob is_pretty d t1))) =
         set (map fst (filter (\<lambda>e. is_dir (snd e)) (rglob is_pretty d t2)))
       \<and> inj_on (\<lambda>p. lower (as_posix p))
         (set (map fst (filter (\<lambda>e. is_dir (snd e)) (rglob is_pretty d t1)))) \<longrightarrow>
      generate_fp_lib_table lower root d (Some t1) = generate_fp_lib_table lower root d (Some t2))"
proof -
  have 3: "generate_sym_lib_table lower root d (Some t1) =
      generate_sym_lib_table lower root d (Some t2)"
    if "distinct (map fst (rglob is_kicad_sym d t1)) \<and> distinct (map fst (rglob is_kicad_sym d t2))
       \<and> set (map fst (rglob is_kicad_sym d t1)) = set (map fst (rglob is_kicad_sym d t2))
       \<and> inj_on (\<lambda>p. lower (as_posix p)) (set (map fst (rglob is_kicad_sym d t1)))"
  proof (intro generate_sym_cong)
    from that show "sym_files lower d t1 = sym_files lower d t2"
      unfolding sym_files_def by (intro sort_paths_perm) blast+
  qed
  have 4: "generate_fp_lib_table lower root d (Some t1) =
      generate_fp_lib_table lower root d (Some t2)"
    if "distinct (map fst (filter (\<lambda>e. is_dir (snd e)) (rglob is_pretty d t1)))
       \<and> distinct (map fst (filter (\<lambda>e. is_dir (snd e)) (rglob is_pretty d t2)))
       \<and> set (map fst (filter (\<lambda>e. is_dir (snd e)) (rglob is_pretty d t1))) =
         set (map fst (filter (\<lambda>e. is_dir (snd e)) (rglob is_pretty d t2)))
       \<and> inj_on (\<lambda>p. lower (as_posix p))
         (set (map fst (filter (\<lambda>e. is_dir (snd e)) (rglob is_pretty d t1))))"
  proof (intro generate_fp_cong)
    from that show "pretty_dirs lower d t1 = pretty_dirs lower d t2"
      unfolding pretty_dirs_def by (intro sort_paths_perm) blast+
  qed
  from 3 4 show ?thesis by blast
qed

theorem generation_deterministic_witness:
  "generate_sym_lib_table ascii_lower [''P''] [''P'', ''lib'', ''symbols'']
      (Some (Dir [(''a.kicad_sym'', File), (''b.kicad_sym'', File)])) =
   generate_sym_lib_table ascii_lower [''P''] [''P'', ''lib'', ''symbols'']
      (Some (Dir [(''b.kicad_sym'', File), (''readme'', File), (''a.kicad_sym'', File)]))
   \<and> generate_fp_lib_table ascii_lower [''P''] [''P'', ''lib'', ''footprints'']
      (Some (Dir [(''r.pretty'', Dir []), (''s.pretty'', Dir [])])) =
   generate_fp_lib_table ascii_lower [''P''] [''P'', ''lib'', ''footprints'']
      (Some (Dir [(''s.pretty'', Dir [(''s.kicad_mod'', File)]), (''notes'', File),
                  (''r.pretty'', Dir [])]))"
proof -
  let ?d = "[''P'', ''lib'', ''symbols'']"
  let ?t1 = "Dir [(''a.kicad_sym'', File), (''b.kicad_sym'', File)]"
  let ?t2 = "Dir [(''b.kicad_sym'', File), (''readme'', File), (''a.kicad_sym'', File)]"
  let ?f = "[''P'', ''lib'', ''footprints'']"
  let ?u1 = "Dir [(''r.pretty'', Dir []), (''s.pretty'', Dir [])]"
  let ?u2 = "Dir [(''s.pretty'', Dir [(''s.kicad_mod'', File)]), (''notes'', File),
                  (''r.pretty'', Dir [])]"
  have r1: "map fst (rglob is_kicad_sym ?d ?t1) =
      [[''P'', ''lib'', ''symbols'', ''a.kicad_sym''], [''P'', ''lib'', ''symbols'', ''b.kicad_sym'']]"
    and r2: "map fst (rglob is_kicad_sym ?d ?t2) =
      [[''P'', ''lib'', ''symbols'', ''b.kicad_sym''], [''P'', ''lib'', ''symbols'', ''a.kicad_sym'']]"
    by (simp_all add: is_kicad_sym_def endswith_def)
  have h: "distinct (map fst (rglob is_kicad_sym ?d ?t1))
      \<and> distinct (map fst (rglob is_kicad_sym ?d ?t2))
      \<and> set (map fst (rglob is_kicad_sym ?d ?t1)) = set (map fst (rglob is_kicad_sym ?d ?t2))
      \<and> inj_on (\<lambda>p. ascii_lower (as_posix p)) (set (map fst (rglob is_kicad_sym ?d ?t1)))"
    unfolding r1 r2 by (auto simp: as_posix_def ascii_lower_def ascii_lower_char_def)
  have q1: "map fst (filter (\<lambda>e. is_dir (snd e)) (rglob is_pretty ?f ?u1)) =
      [[''P'', ''lib'', ''footprints'', ''r.pretty''], [''P'', ''lib'', ''footprints'', ''s.pretty'']]"
    and q2: "map fst (filter (\<lambda>e. is_dir (snd e)) (rglob is_pretty ?f ?u2)) =
      [[''P'', ''lib'', ''footprints'', ''s.pretty''], [''P'', ''lib'', ''footprints'', ''r.pretty'']]"
    by (simp_all add: is_pretty_def endswith_def)
  have g: "distinct (map fst (filter (\<lambda>e. is_dir (snd e)) (rglob is_pretty ?f ?u1)))
       \<and> distinct (map fst (filter (\<lambda>e. is_dir (snd e)) (rglob is_pretty ?f ?u2)))
       \<and> set (map fst (filter (\<lambda>e. is_dir (snd e)) (rglob is_pretty ?f ?u1))) =
         set (map fst (filter (\<lambda>e. is_dir (snd e)) (rglob is_pretty ?f ?u2)))
       \<and> inj_on (\<lambda>p. ascii_lower (as_posix p))
         (set (map fst (filter (\<lambda>e. is_dir (snd e)) (rglob is_pretty ?f ?u1))))"
    unfolding q1 q2 by (auto simp: as_posix_def ascii_lower_def ascii_lower_char_def)
  from generation_deterministic [where d = ?d and ?t1.0 = ?t1 and ?t2.0 = ?t2
      and root = "[''P'']" and lower = ascii_lower] h
  have 1: "generate_sym_lib_table ascii_lower [''P''] ?d (Some ?t1) =
      generate_sym_lib_table ascii_lower [''P''] ?d (Some ?t2)"
    by blast
  from generation_deterministic [where d = ?f and ?t1.0 = ?u1 and ?t2.0 = ?u2
      and root = "[''P'']" and lower = ascii_lower] g
  have 2: "generate_fp_lib_table ascii_lower [''P''] ?f (Some ?u1) =
      generate_fp_lib_table ascii_lower [''P''] ?f (Some ?u2)"
    by blast
  from 1 2 show ?thesis by (intro conjI)
qed

text \<open>
  Claim C9, as stated, fails. A scan directory whose own name ends in \<open>.pretty\<close> is not
  among the results: \<open>rglob\<close> produces entries of the directories it visits, never the
  directory it starts from.
\<close>

theorem scan_root_not_discovered:
  "is_pretty (name_of [''P'', ''lib'', ''x.pretty'']) \<and> is_dir (Dir [])
   \<and> pretty_dirs ascii_lower [''P'', ''lib'', ''x.pretty''] (Dir []) = []
   \<and> [''P'', ''lib'', ''x.pretty''] \<notin> set (pretty_dirs ascii_lower [''P'', ''lib'', ''x.pretty''] (Dir []))"
  by (simp add: discovery_eval name_of_def)

text \<open>
  Claim C9, amended. Discovery produces exactly the nodes strictly below the scan
  directory whose name matches (for footprints: the directories among them); the scan
  directory itself is never produced.
\<close>

theorem discovery_finds_nodes_below:
  "(x \<in> set (sym_files lower d t) \<longleftrightarrow>
      (\<exists>q nd. q \<noteq> [] \<and> x = d @ q \<and> has_node t q nd \<and> is_kicad_sym (last q)))
   \<and> (x \<in> set (pretty_dirs lower d t) \<longleftrightarrow>
      (\<exists>q nd. q \<noteq> [] \<and> x = d @ q \<and> has_node t q nd \<and> is_dir nd \<and> is_pretty (last q)))
   \<and> d \<notin> set (sym_files lower d t) \<and> d \<notin> set (pretty_dirs lower d t)"
proof -
  have s: "x \<in> set (sym_files lower d t) \<longleftrightarrow>
      (\<exists>q nd. q \<noteq> [] \<and> x = d @ q \<and> has_node t q nd \<and> is_kicad_sym (last q))" for x
  proof -
    have "x \<in> set (sym_files lower d t) \<longleftrightarrow> (\<exists>nd. (x, nd) \<in> set (rglob is_kicad_sym d t))"
      by (force simp: sym_files_def set_sort_paths)
    then show ?thesis unfolding rglob_iff_aux(1) by blast
  qed
  have p: "x \<in> set (pretty_dirs lower d t) \<longleftrightarrow>
      (\<exists>q nd. q \<noteq> [] \<and> x = d @ q \<and> has_node t q nd \<and> is_dir nd \<and> is_pretty (last q))" for x
  proof -
    have "x \<in> set (pretty_dirs lower d t) \<longleftrightarrow>
        (\<exists>nd. (x, nd) \<in> set (rglob is_pretty d t) \<and> is_dir nd)"
      by (force simp: pretty_dirs_def set_sort_paths)
    then show ?thesis unfolding rglob_iff_aux(1) by blast
  qed
  have "d \<notin> set (sym_files lower d t)" "d \<notin> set (pretty_dirs lower d t)"
    unfolding s p by simp_all
  with s [of x] p [of x] show ?thesis by blast
qed

theorem discovery_finds_nodes_below_witness:
  "[''P'', ''lib'', ''footprints'', ''sub'', ''r.pretty''] \<in>
      set (pretty_dirs ascii_lower [''P'', ''lib'', ''footprints''] (Dir [(''sub'', Dir [(''r.pretty'', Dir [])])]))
   \<and> [''P'', ''lib'', ''footprints''] \<notin>
      set (pretty_dirs ascii_lower [''P'', ''lib'', ''footprints''] (Dir [(''sub'', Dir [(''r.pretty'', Dir [])])]))"
proof -
  let ?d = "[''P'', ''lib'', ''footprints'']"
  let ?t = "Dir [(''sub'', Dir [(''r.pretty'', Dir [])])]"
  have n: "has_node ?t [''sub'', ''r.pretty''] (Dir [])"
    by (simp add: has_node_Cons has_node_Nil)
  have m: "is_pretty (last [''sub'', ''r.pretty''])"
    by (simp add: is_pretty_def endswith_def)
  have "\<exists>q nd. q \<noteq> [] \<and> ?d @ [''sub'', ''r.pretty''] = ?d @ q \<and> has_node ?t q nd \<and> is_dir nd
      \<and> is_pretty (last q)"
    using n m by (intro exI [of _ "[''sub'', ''r.pretty'']"] exI [of _ "Dir []"]) simp
  with discovery_finds_nodes_below
    [where x = "?d @ [''sub'', ''r.pretty'']" and d = ?d and t = ?t and lower = ascii_lower]
  have "?d @ [''sub'', ''r.pretty''] \<in> set (pretty_dirs ascii_lower ?d ?t)" by blast
  moreover from discovery_finds_nodes_below [where x = ?d and d = ?d and t = ?t and lower = ascii_lower]
  have "?d \<notin> set (pretty_dirs ascii_lower ?d ?t)" by blast
  ultimately show ?thesis by simp
qed

lemma sym_files_double_collision:
  "sym_files ascii_lower [''P'', ''lib'', ''symbols'']
     (Dir [(''a.kicad_sym'', File),
           (''x'', Dir [(''y'', Dir [(''a.kicad_sym'', File)])]),
           (''x_y'', Dir [(''a.kicad_sym'', File)])]) =
   [[''P'', ''lib'', ''symbols'', ''a.kicad_sym''],
    [''P'', ''lib'', ''symbols'', ''x'', ''y'', ''a.kicad_sym''],
    [''P'', ''lib'', ''symbols'', ''x_y'', ''a.kicad_sym'']]"
  by (simp add: discovery_eval)

lemma pretty_dirs_footprints:
  "pretty_dirs ascii_lower [''P'', ''lib'', ''footprints''] (Dir [(''footprints.pretty'', Dir [])]) =
   [[''P'', ''lib'', ''footprints'', ''footprints.pretty'']]"
  by (simp add: discovery_eval)

text \<open>
  Claim C2: the code does not keep the names of a document unique. With
  \<open>a.kicad_sym\<close> at the top of the symbols directory, in \<open>x/y\<close> and in \<open>x_y\<close>, the second
  and the third entry both get the name \<open>a_lib_symbols_x_y\<close>; and a footprint directory
  \<open>footprints.pretty\<close> gets the name \<open>footprints\<close>, which the synthetic entry already
  has.
\<close>

theorem assigned_names_collide:
  "generate_sym_lib_table ascii_lower [''P''] [''P'', ''lib'', ''symbols'']
     (Some (Dir [(''a.kicad_sym'', File),
                 (''x'', Dir [(''y'', Dir [(''a.kicad_sym'', File)])]),
                 (''x_y'', Dir [(''a.kicad_sym'', File)])])) =
   Inr (SYM_HEADER @
     make_lib_line ''a'' ''${KIPRJMOD}/lib/symbols/a.kicad_sym'' @ [nl] @
     make_lib_line ''a_lib_symbols_x_y'' ''${KIPRJMOD}/lib/symbols/x/y/a.kicad_sym'' @ [nl] @
     make_lib_line ''a_lib_symbols_x_y'' ''${KIPRJMOD}/lib/symbols/x_y/a.kicad_sym'' @ [nl] @
     FOOTER)
   \<and> generate_fp_lib_table ascii_lower [''P''] [''P'', ''lib'', ''footprints'']
     (Some (Dir [(''footprints.pretty'', Dir [])])) =
   Inr (FP_HEADER @
     make_lib_line ''footprints'' ''${KIPRJMOD}/lib/footprints'' @ [nl] @
     make_lib_line ''footprints'' ''${KIPRJMOD}/lib/footprints/footprints.pretty'' @ [nl] @
     FOOTER)"
proof -
  let ?t = "Dir [(''a.kicad_sym'', File),
                 (''x'', Dir [(''y'', Dir [(''a.kicad_sym'', File)])]),
                 (''x_y'', Dir [(''a.kicad_sym'', File)])]"
  let ?u = "Dir [(''footprints.pretty'', Dir [])]"
  have "lib_lines (make_unique_names (sym_files ascii_lower [''P'', ''lib'', ''symbols''] ?t) stem [''P''])
      [''P''] (sym_files ascii_lower [''P'', ''lib'', ''symbols''] ?t) =
    Inr [make_lib_line ''a'' ''${KIPRJMOD}/lib/symbols/a.kicad_sym'',
         make_lib_line ''a_lib_symbols_x_y'' ''${KIPRJMOD}/lib/symbols/x/y/a.kicad_sym'',
         make_lib_line ''a_lib_symbols_x_y'' ''${KIPRJMOD}/lib/symbols/x_y/a.kicad_sym'']"
    unfolding sym_files_double_collision
    by (simp add: make_unique_names_def stem_def name_of_def rfind_def Let_def name_suffix_def
        parent_rel_def parent_def relative_to_def rel_as_posix_def replace_char_def bs_def
        KIPRJMOD_def)
  from generate_sym_ok [OF this]
  have 1: "generate_sym_lib_table ascii_lower [''P''] [''P'', ''lib'', ''symbols''] (Some ?t) =
   Inr (SYM_HEADER @
     make_lib_line ''a'' ''${KIPRJMOD}/lib/symbols/a.kicad_sym'' @ [nl] @
     make_lib_line ''a_lib_symbols_x_y'' ''${KIPRJMOD}/lib/symbols/x/y/a.kicad_sym'' @ [nl] @
     make_lib_line ''a_lib_symbols_x_y'' ''${KIPRJMOD}/lib/symbols/x_y/a.kicad_sym'' @ [nl] @
     FOOTER)"
    by simp
  have "lib_lines (make_unique_names (pretty_dirs ascii_lower [''P'', ''lib'', ''footprints''] ?u)
        pretty_base [''P''])
      [''P''] (pretty_dirs ascii_lower [''P'', ''lib'', ''footprints''] ?u) =
    Inr [make_lib_line ''footprints'' ''${KIPRJMOD}/lib/footprints/footprints.pretty'']"
    unfolding pretty_dirs_footprints
    by (simp add: make_unique_names_def pretty_base_def name_of_def endswith_def Let_def
        relative_to_def rel_as_posix_def KIPRJMOD_def)
  from generate_fp_ok [OF _ this]
  have 2: "generate_fp_lib_table ascii_lower [''P''] [''P'', ''lib'', ''footprints''] (Some ?u) =
   Inr (FP_HEADER @
     make_lib_line ''footprints'' ''${KIPRJMOD}/lib/footprints'' @ [nl] @
     make_lib_line ''footprints'' ''${KIPRJMOD}/lib/footprints/footprints.pretty'' @ [nl] @
     FOOTER)"
    by (simp add: KIPRJMOD_def rel_as_posix_def)
  from 1 2 show ?thesis by (intro conjI)
qed

end
